theory Spec2Isabelle
  imports Complex_Main "HOL-Library.AList"
begin

section \<open>Python values and the json module\<close>

text \<open>
  The values that \<^verbatim>\<open>json.loads\<close> can produce and \<^verbatim>\<open>json.dumps\<close> can take.
  A float is represented by the real number it denotes (NaN and the infinities are not
  represented). A dict is an association list in insertion order.
\<close>

datatype pyval =
    PNone
  | PBool bool
  | PInt int
  | PFloat real
  | PStr string
  | PList "pyval list"
  | PDict "(string \<times> pyval) list"

text \<open>\<^verbatim>\<open>type(value)\<close>: \<^verbatim>\<open>type(True)\<close> is \<^verbatim>\<open>bool\<close>, not \<^verbatim>\<open>int\<close>.\<close>

datatype pytype = T_NoneType | T_bool | T_int | T_float | T_str | T_list | T_dict

fun py_type :: "pyval \<Rightarrow> pytype" where
  "py_type PNone = T_NoneType"
| "py_type (PBool b) = T_bool"
| "py_type (PInt i) = T_int"
| "py_type (PFloat r) = T_float"
| "py_type (PStr s) = T_str"
| "py_type (PList xs) = T_list"
| "py_type (PDict kvs) = T_dict"

text \<open>
  The json module is a library outside the repository; it is a parameter of the model.
  \<open>dumps J v = None\<close> stands for \<^verbatim>\<open>json.dumps\<close> raising TypeError,
  \<open>loads J txt = None\<close> for \<^verbatim>\<open>json.loads\<close> raising JSONDecodeError.
\<close>

record json =
  dumps :: "pyval \<Rightarrow> string option"
  loads :: "string \<Rightarrow> pyval option"

datatype error =
    AssertionError
  | UnknownParameter
  | InvalidValueType
  | FileNotFoundError
  | JSONDecodeError
  | KeyError
  | TypeError

section \<open>Param\<close>

text \<open>
  The description texts are shown by the external editor only; the model keeps whether
  one was given (\<open>Some ()\<close>) or not.
\<close>

record Param =
  default_value :: pyval
  allowed_types :: "pytype list"
  description :: "unit option"
  hidden :: bool
  live :: bool
  static :: bool
  has_allowed_types :: bool
  has_description :: bool
  is_list :: bool
  read_frequency :: "real option"
  last_read :: real

definition NUMBER :: "pytype list" where
  "NUMBER = [T_float, T_int]"

definition NONE_OR_NUMBER :: "pytype list" where
  "NONE_OR_NUMBER = [T_NoneType, T_float, T_int]"

definition is_valid :: "Param \<Rightarrow> pyval \<Rightarrow> bool" where
  "is_valid p v =
     (if \<not> has_allowed_types p then True
      else py_type v \<in> set (allowed_types p))"

text \<open>
  \<^verbatim>\<open>_create_attrs\<close> sets the derived attributes, asserts that the default's type is
  allowed, and afterwards removes the first \<^verbatim>\<open>list\<close> entry from the allowed types.
\<close>

definition create_attrs :: "Param \<Rightarrow> error + Param" where
  "create_attrs p =
     (let p1 = p\<lparr> has_allowed_types := 0 < length (allowed_types p),
                  has_description := (description p \<noteq> None),
                  is_list := (T_list \<in> set (allowed_types p)),
                  read_frequency := (if static p then None else Some (if live p then 1 else 10)),
                  last_read := - 1 \<rparr>
      in if has_allowed_types p1 \<and> py_type (default_value p1) \<notin> set (allowed_types p1)
         then Inl AssertionError
         else if is_list p1
              then Inr (p1\<lparr> allowed_types := remove1 T_list (allowed_types p1) \<rparr>)
              else Inr p1)"

text \<open>
  \<^verbatim>\<open>Param.__init__\<close>: an \<^verbatim>\<open>allowed_types\<close> argument that is not a list is wrapped
  into one. The derived attributes do not exist before \<^verbatim>\<open>_create_attrs\<close>; the values
  given to them here are overwritten there.
\<close>

datatype allowed_arg = Single pytype | Many "pytype list"

definition Param_init ::
  "pyval \<Rightarrow> allowed_arg \<Rightarrow> unit option \<Rightarrow> bool \<Rightarrow> bool \<Rightarrow> bool \<Rightarrow> error + Param" where
  "Param_init dflt allowed descr is_static is_live is_hidden =
     create_attrs
       \<lparr> default_value = dflt,
         allowed_types = (case allowed of Single t \<Rightarrow> [t] | Many ts \<Rightarrow> ts),
         description = descr,
         hidden = is_hidden,
         live = is_live,
         static = is_static,
         has_allowed_types = False,
         has_description = False,
         is_list = False,
         read_frequency = None,
         last_read = - 1 \<rparr>"

section \<open>The store and the file system\<close>

text \<open>
  The state is the \<^verbatim>\<open>opParams\<close> object together with the part of the world it
  touches: the parameters directory (\<open>None\<close> when it does not exist, otherwise its
  files by name with their text), the legacy file, the files opened for reading so far,
  and what was printed. File names are plain names inside the directory.
\<close>

datatype path = ParamFile string | OldParamsFile

datatype printout = Warning_returning_default | Warning_replacing_with_default string | Print_None

record opParams =
  fork_params :: "(string \<times> Param) list"
  params :: "(string \<times> pyval) list"
  to_delete :: "string list"
  to_reset :: "string list"
  PARAMS_DIR :: "(string \<times> string) list option"
  OLD_PARAMS_FILE :: "string option"
  opened :: "path list"
  printed :: "printout list"

definition IMPORTED :: string where
  "IMPORTED = ''.imported''"

text \<open>\<^verbatim>\<open>_read_param\<close>: only a JSON decode error is caught.\<close>

definition read_param :: "json \<Rightarrow> string \<Rightarrow> opParams \<Rightarrow> (error + pyval \<times> bool) \<times> opParams" where
  "read_param J key s =
     (case PARAMS_DIR s of
        None \<Rightarrow> (Inl FileNotFoundError, s)
      | Some d \<Rightarrow>
          (case map_of d key of
             None \<Rightarrow> (Inl FileNotFoundError, s)
           | Some txt \<Rightarrow>
               (let s1 = s\<lparr> opened := opened s @ [ParamFile key] \<rparr>
                in case loads J txt of
                     None \<Rightarrow> (Inr (PNone, False), s1)
                   | Some v \<Rightarrow> (Inr (v, True), s1))))"

text \<open>\<^verbatim>\<open>_write_param\<close>: the file is replaced as a whole, or not at all.\<close>

definition write_param :: "json \<Rightarrow> string \<Rightarrow> pyval \<Rightarrow> opParams \<Rightarrow> (error + unit) \<times> opParams" where
  "write_param J key v s =
     (case PARAMS_DIR s of
        None \<Rightarrow> (Inl FileNotFoundError, s)
      | Some d \<Rightarrow>
          (case dumps J v of
             None \<Rightarrow> (Inl TypeError, s)
           | Some txt \<Rightarrow> (Inr (), s\<lparr> PARAMS_DIR := Some (AList.update key txt d) \<rparr>)))"

subsection \<open>Legacy import\<close>

fun import_entries ::
  "json \<Rightarrow> string list \<Rightarrow> (string \<times> pyval) list \<Rightarrow> opParams \<Rightarrow> (error + unit) \<times> opParams" where
  "import_entries J [] old_params s = (Inr (), s)"
| "import_entries J (key # keys) old_params s =
     (case map_of old_params key of
        None \<Rightarrow> (Inl KeyError, s)
      | Some v \<Rightarrow>
          (case write_param J key v s of
             (Inl e, s1) \<Rightarrow> (Inl e, s1)
           | (Inr u, s1) \<Rightarrow> import_entries J keys old_params s1))"

text \<open>
  \<^verbatim>\<open>for key in old_params: _write_param(key, old_params[key])\<close> for each kind of
  decoded value: a dict is walked by its keys; an empty list or string has nothing to walk;
  any other value raises in the first round or is not iterable (an out-of-range integer
  element of a list raises IndexError instead of TypeError; the caller treats all
  exceptions alike).
\<close>

fun import_loop :: "json \<Rightarrow> pyval \<Rightarrow> opParams \<Rightarrow> (error + unit) \<times> opParams" where
  "import_loop J (PDict kvs) s = import_entries J (map fst kvs) kvs s"
| "import_loop J (PList []) s = (Inr (), s)"
| "import_loop J (PStr []) s = (Inr (), s)"
| "import_loop J v s = (Inl TypeError, s)"

text \<open>The body of the \<^verbatim>\<open>try\<close> block of \<^verbatim>\<open>_import_params\<close>.\<close>

definition import_try :: "json \<Rightarrow> opParams \<Rightarrow> (error + unit) \<times> opParams" where
  "import_try J s =
     (case OLD_PARAMS_FILE s of
        None \<Rightarrow> (Inl FileNotFoundError, s)
      | Some txt \<Rightarrow>
          (let s1 = s\<lparr> opened := opened s @ [OldParamsFile] \<rparr>
           in case loads J txt of
                None \<Rightarrow> (Inl JSONDecodeError, s1)
              | Some old_params \<Rightarrow>
                  (case import_loop J old_params s1 of
                     (Inl e, s2) \<Rightarrow> (Inl e, s2)
                   | (Inr u, s2) \<Rightarrow>
                       (case PARAMS_DIR s2 of
                          None \<Rightarrow> (Inl FileNotFoundError, s2)
                        | Some d \<Rightarrow>
                            (Inr (), s2\<lparr> PARAMS_DIR := Some (AList.update IMPORTED [] d) \<rparr>)))))"

text \<open>\<^verbatim>\<open>_import_params\<close>: the bare \<^verbatim>\<open>except: pass\<close> keeps the state reached.\<close>

definition imported_exists :: "opParams \<Rightarrow> bool" where
  "imported_exists s =
     (case PARAMS_DIR s of None \<Rightarrow> False | Some d \<Rightarrow> map_of d IMPORTED \<noteq> None)"

definition import_params :: "json \<Rightarrow> opParams \<Rightarrow> opParams" where
  "import_params J s =
     (if OLD_PARAMS_FILE s \<noteq> None \<and> \<not> imported_exists s
      then snd (import_try J s)
      else s)"

subsection \<open>Loading\<close>

definition startswith_dot :: "string \<Rightarrow> bool" where
  "startswith_dot key = (case key of [] \<Rightarrow> False | c # cs \<Rightarrow> c = CHR ''.'')"

text \<open>
  The loop of \<^verbatim>\<open>_load_params\<close> over the names listed at its start; \<open>acc\<close> is the local
  dict \<^verbatim>\<open>params\<close>.
\<close>

fun load_loop ::
  "json \<Rightarrow> string list \<Rightarrow> (string \<times> pyval) list \<Rightarrow> opParams
     \<Rightarrow> (error + (string \<times> pyval) list) \<times> opParams" where
  "load_loop J [] acc s = (Inr acc, s)"
| "load_loop J (key # keys) acc s =
     (if startswith_dot key \<or> map_of (fork_params s) key = None
      then load_loop J keys acc s
      else
        (case read_param J key s of
           (Inl e, s1) \<Rightarrow> (Inl e, s1)
         | (Inr (v, success), s1) \<Rightarrow>
             (if \<not> success
              then
                (case map_of (fork_params s1) key of
                   None \<Rightarrow> (Inl KeyError, s1)
                 | Some p \<Rightarrow>
                     (case write_param J key (default_value p) s1 of
                        (Inl e, s2) \<Rightarrow> (Inl e, s2)
                      | (Inr u, s2) \<Rightarrow>
                          load_loop J keys (AList.update key (default_value p) acc) s2))
              else load_loop J keys (AList.update key v acc) s1)))"

definition load_params ::
  "json \<Rightarrow> bool \<Rightarrow> opParams \<Rightarrow> (error + (string \<times> pyval) list) \<times> opParams" where
  "load_params J can_import s =
     (let s1 = (case PARAMS_DIR s of
                  None \<Rightarrow>
                    (let s0 = s\<lparr> PARAMS_DIR := Some [] \<rparr>
                     in if can_import then import_params J s0 else s0)
                | Some d \<Rightarrow> s)
      in case PARAMS_DIR s1 of
           None \<Rightarrow> (Inl FileNotFoundError, s1)
         | Some d \<Rightarrow> load_loop J (map fst d) [] s1)"

subsection \<open>Filling in defaults, deleting and resetting\<close>

fun add_default_params ::
  "json \<Rightarrow> (string \<times> Param) list \<Rightarrow> opParams \<Rightarrow> (error + unit) \<times> opParams" where
  "add_default_params J [] s = (Inr (), s)"
| "add_default_params J ((key, param) # rest) s =
     (case map_of (params s) key of
        None \<Rightarrow>
          (let s1 = s\<lparr> params := AList.update key (default_value param) (params s) \<rparr>
           in case write_param J key (default_value param) s1 of
                (Inl e, s2) \<Rightarrow> (Inl e, s2)
              | (Inr u, s2) \<Rightarrow> add_default_params J rest s2)
      | Some v \<Rightarrow>
          (if \<not> is_valid param v
           then
             (let s1 = s\<lparr> printed := printed s @ [Warning_replacing_with_default key, Print_None],
                          params := AList.update key (default_value param) (params s) \<rparr>
              in case write_param J key (default_value param) s1 of
                   (Inl e, s2) \<Rightarrow> (Inl e, s2)
                 | (Inr u, s2) \<Rightarrow> add_default_params J rest s2)
           else add_default_params J rest s))"

text \<open>\<^verbatim>\<open>os.remove\<close> of a parameter file.\<close>

definition remove_file :: "string \<Rightarrow> opParams \<Rightarrow> (error + unit) \<times> opParams" where
  "remove_file key s =
     (case PARAMS_DIR s of
        None \<Rightarrow> (Inl FileNotFoundError, s)
      | Some d \<Rightarrow>
          (case map_of d key of
             None \<Rightarrow> (Inl FileNotFoundError, s)
           | Some txt \<Rightarrow> (Inr (), s\<lparr> PARAMS_DIR := Some (AList.delete key d) \<rparr>)))"

fun delete_and_reset :: "json \<Rightarrow> string list \<Rightarrow> opParams \<Rightarrow> (error + unit) \<times> opParams" where
  "delete_and_reset J [] s = (Inr (), s)"
| "delete_and_reset J (key # keys) s =
     (if key \<in> set (to_delete s)
      then
        (case map_of (params s) key of
           None \<Rightarrow> (Inl KeyError, s)
         | Some v \<Rightarrow>
             (case remove_file key (s\<lparr> params := AList.delete key (params s) \<rparr>) of
                (Inl e, s1) \<Rightarrow> (Inl e, s1)
              | (Inr u, s1) \<Rightarrow> delete_and_reset J keys s1))
      else
        (case (if key \<in> set (to_reset s) then map_of (fork_params s) key else None) of
           Some p \<Rightarrow>
             (let s1 = s\<lparr> params := AList.update key (default_value p) (params s) \<rparr>
              in case write_param J key (default_value p) s1 of
                   (Inl e, s2) \<Rightarrow> (Inl e, s2)
                 | (Inr u, s2) \<Rightarrow> delete_and_reset J keys s2)
         | None \<Rightarrow> delete_and_reset J keys s))"

subsection \<open>Construction\<close>

text \<open>
  \<^verbatim>\<open>_run_init\<close>: the two built-in entries are added to \<^verbatim>\<open>fork_params\<close>, then the
  store is loaded, completed and cleaned. \<^verbatim>\<open>self.params\<close> is assigned only when
  \<^verbatim>\<open>_load_params\<close> returns.
\<close>

definition run_init :: "json \<Rightarrow> opParams \<Rightarrow> (error + unit) \<times> opParams" where
  "run_init J s =
     (case Param_init PNone (Many [T_NoneType, T_str, T_bool]) (Some ()) False False False of
        Inl e \<Rightarrow> (Inl e, s)
      | Inr username \<Rightarrow>
          (let s1 = s\<lparr> fork_params := AList.update ''username'' username (fork_params s) \<rparr>
           in case Param_init (PBool False) (Single T_bool) (Some ()) False False True of
                Inl e \<Rightarrow> (Inl e, s1)
              | Inr op_edit_live_mode \<Rightarrow>
                  (let s2 = s1\<lparr> fork_params :=
                                   AList.update ''op_edit_live_mode'' op_edit_live_mode
                                     (fork_params s1) \<rparr>
                   in case load_params J True s2 of
                        (Inl e, s3) \<Rightarrow> (Inl e, s3)
                      | (Inr loaded, s3) \<Rightarrow>
                          (let s4 = s3\<lparr> params := loaded \<rparr>
                           in case add_default_params J (fork_params s4) s4 of
                                (Inl e, s5) \<Rightarrow> (Inl e, s5)
                              | (Inr u, s5) \<Rightarrow>
                                  delete_and_reset J (map fst (params s5)) s5))))"

text \<open>The dict literal of \<^verbatim>\<open>__init__\<close>: the first failing \<^verbatim>\<open>Param(...)\<close> raises.\<close>

fun dict_literal ::
  "(string \<times> (error + Param)) list \<Rightarrow> (string \<times> Param) list \<Rightarrow> error + (string \<times> Param) list" where
  "dict_literal [] acc = Inr acc"
| "dict_literal ((key, Inl e) # rest) acc = Inl e"
| "dict_literal ((key, Inr p) # rest) acc = dict_literal rest (AList.update key p acc)"

definition declared_params :: "(string \<times> (error + Param)) list" where
  "declared_params =
     [(''global_df_mod'', Param_init (PFloat 1) (Many NUMBER) (Some ()) False True False),
      (''min_TR'', Param_init (PFloat (9 / 10)) (Many NUMBER) (Some ()) False True False),
      (''alca_no_nudge_speed'', Param_init (PFloat 90) (Many NUMBER) (Some ()) False False False),
      (''steer_ratio'', Param_init PNone (Many NONE_OR_NUMBER) (Some ()) False True False),
      (''upload_onroad'', Param_init (PBool True) (Single T_bool) (Some ()) True False False),
      (''update_behavior'', Param_init (PStr ''alert'') (Single T_str) (Some ()) True False False),
      (''dynamic_gas'', Param_init (PBool False) (Single T_bool) (Some ()) False False False),
      (''hide_auto_df_alerts'', Param_init (PBool False) (Single T_bool) (Some ()) False False False),
      (''df_button_alerts'', Param_init (PStr ''audible'') (Single T_str) (Some ()) False False False),
      (''disable_charging'', Param_init (PInt 30) (Many NUMBER) (Some ()) True False False),
      (''hide_model_long'', Param_init (PBool False) (Single T_bool) (Some ()) True False False),
      (''use_steering_model'', Param_init (PBool False) (Single T_bool) (Some ()) True False False),
      (''rav4TSS2_use_indi'', Param_init (PBool False) (Single T_bool) (Some ()) True False False),
      (''standstill_hack'', Param_init (PBool False) (Single T_bool) (Some ()) True False False),
      (''toyota_distance_btn'', Param_init (PBool False) (Single T_bool) (Some ()) True False False),
      (''dynamic_follow'', Param_init (PStr ''stock'') (Single T_str) None True False True),
      (''lane_speed_alerts'', Param_init (PStr ''silent'') (Single T_str) None True False True)]"

text \<open>
  \<^verbatim>\<open>opParams.__init__\<close>, run in a world \<open>w\<close> of which only the file system, the
  opened files and the printed lines matter: the object's attributes are set here.
\<close>

definition opParams_init :: "json \<Rightarrow> opParams \<Rightarrow> (error + unit) \<times> opParams" where
  "opParams_init J w =
     (case dict_literal declared_params [] of
        Inl e \<Rightarrow> (Inl e, w)
      | Inr fp \<Rightarrow>
          run_init J
            (w\<lparr> fork_params := fp,
                params := [],
                to_delete := [''use_lqr'', ''disengage_on_gas'', ''corollaTSS2_use_indi'',
                              ''prius_use_pid''],
                to_reset := [] \<rparr>))"

subsection \<open>get and put\<close>







definition put :: "json \<Rightarrow> string \<Rightarrow> pyval \<Rightarrow> opParams \<Rightarrow> (error + unit) \<times> opParams" where
  "put J key v s =
     (case map_of (fork_params s) key of
        None \<Rightarrow> (Inl UnknownParameter, s)
      | Some p \<Rightarrow>
          (if \<not> is_valid p v then (Inl InvalidValueType, s)
           else write_param J key v (s\<lparr> params := AList.update key v (params s) \<rparr>)))"

section \<open>A fragment of JSON for evaluated examples\<close>

text \<open>
  The texts that \<^verbatim>\<open>json.dumps\<close> produces for the values used in the examples below,
  and that \<^verbatim>\<open>json.loads\<close> reads back to them. Every other text is taken as not
  decodable and every other value as not encodable, so examples use only these.
\<close>

definition json_table :: "(string \<times> pyval) list" where
  "json_table =
     [(''null'', PNone),
      (''true'', PBool True),
      (''false'', PBool False),
      (''1.0'', PFloat 1),
      (''0.9'', PFloat (9 / 10)),
      (''1.2'', PFloat (6 / 5)),
      (''90.0'', PFloat 90),
      (''30'', PInt 30),
      (''1'', PInt 1),
      (''2'', PInt 2),
      (''{\"min_TR\": 1.2}'', PDict [(''min_TR'', PFloat (6 / 5))]),
      (CHR 0x22 # ''alert'' @ [CHR 0x22], PStr ''alert''),
      (CHR 0x22 # ''audible'' @ [CHR 0x22], PStr ''audible''),
      (CHR 0x22 # ''stock'' @ [CHR 0x22], PStr ''stock''),
      (CHR 0x22 # ''silent'' @ [CHR 0x22], PStr ''silent'')]"

definition json_fragment :: json where
  "json_fragment =
     \<lparr> dumps = (\<lambda>v. map_of (map (\<lambda>(txt, v). (v, txt)) json_table) v),
       loads = map_of json_table \<rparr>"

text \<open>A world with the given directory and legacy file and an object not yet initialised.\<close>

definition world :: "(string \<times> string) list option \<Rightarrow> string option \<Rightarrow> opParams" where
  "world dir legacy =
     \<lparr> fork_params = [], params = [], to_delete = [], to_reset = [],
       PARAMS_DIR = dir, OLD_PARAMS_FILE = legacy, opened = [], printed = [] \<rparr>"

section \<open>Observations and scenarios\<close>

text \<open>The text of a parameter file, if the file exists.\<close>

definition file_text :: "opParams \<Rightarrow> string \<Rightarrow> string option" where
  "file_text s key = (case PARAMS_DIR s of None \<Rightarrow> None | Some d \<Rightarrow> map_of d key)"

text \<open>The store as constructed on a system with no parameters directory and no legacy file.\<close>

definition fresh_store :: opParams where
  "fresh_store = snd (opParams_init json_fragment (world None None))"





section \<open>Notions used in the proofs\<close>

text \<open>
  \<open>touches K s s'\<close>: from \<open>s\<close> to \<open>s'\<close> the registry, the clean-up lists and the legacy
  file are the same, the directory is still there, only files of \<open>K\<close> were written,
  removed or read, and only cache entries of \<open>K\<close> changed.
\<close>

definition touches :: "string set \<Rightarrow> opParams \<Rightarrow> opParams \<Rightarrow> bool" where
  "touches K s s' \<longleftrightarrow>
     fork_params s' = fork_params s \<and> to_delete s' = to_delete s \<and> to_reset s' = to_reset s
   \<and> OLD_PARAMS_FILE s' = OLD_PARAMS_FILE s
   \<and> (PARAMS_DIR s \<noteq> None \<longrightarrow> PARAMS_DIR s' \<noteq> None)
   \<and> (\<forall>k. k \<notin> K \<longrightarrow> file_text s' k = file_text s k)
   \<and> (\<forall>k. k \<notin> K \<longrightarrow> map_of (params s') k = map_of (params s) k)
   \<and> set (opened s') \<subseteq> set (opened s) \<union> ParamFile ` K"

text \<open>As \<open>touches\<close>, without the cache.\<close>

definition fs_touches :: "string set \<Rightarrow> opParams \<Rightarrow> opParams \<Rightarrow> bool" where
  "fs_touches K s s' \<longleftrightarrow>
     fork_params s' = fork_params s \<and> to_delete s' = to_delete s \<and> to_reset s' = to_reset s
   \<and> OLD_PARAMS_FILE s' = OLD_PARAMS_FILE s
   \<and> (PARAMS_DIR s \<noteq> None \<longrightarrow> PARAMS_DIR s' \<noteq> None)
   \<and> (\<forall>k. k \<notin> K \<longrightarrow> file_text s' k = file_text s k)
   \<and> set (opened s') \<subseteq> set (opened s) \<union> ParamFile ` K"

text \<open>The names of a listing that the loading loop does not skip.\<close>

definition loadable :: "opParams \<Rightarrow> string list \<Rightarrow> string set" where
  "loadable s keys = {k \<in> set keys. \<not> startswith_dot k \<and> map_of (fork_params s) k \<noteq> None}"

definition registered :: "opParams \<Rightarrow> string set" where
  "registered s = {k. map_of (fork_params s) k \<noteq> None}"

text \<open>No file has disappeared.\<close>

definition keeps_files :: "opParams \<Rightarrow> opParams \<Rightarrow> bool" where
  "keeps_files s s' \<longleftrightarrow> (\<forall>k. file_text s k \<noteq> None \<longrightarrow> file_text s' k \<noteq> None)"

text \<open>Every cached key has a file.\<close>

definition backed :: "opParams \<Rightarrow> bool" where
  "backed s \<longleftrightarrow> (\<forall>k. map_of (params s) k \<noteq> None \<longrightarrow> file_text s k \<noteq> None)"

text \<open>Every default of a registry can be encoded.\<close>

definition encodable :: "json \<Rightarrow> (string \<times> Param) list \<Rightarrow> bool" where
  "encodable J regs \<longleftrightarrow> (\<forall>(k, p) \<in> set regs. dumps J (default_value p) \<noteq> None)"

text \<open>The store with the two built-in entries of \<^verbatim>\<open>_run_init\<close> added, as constructed.\<close>

definition builtin_params :: "opParams \<Rightarrow> opParams" where
  "builtin_params s =
     s\<lparr> fork_params :=
          AList.update ''op_edit_live_mode''
            \<lparr> default_value = PBool False, allowed_types = [T_bool], description = Some (),
              hidden = True, live = False, static = False, has_allowed_types = True,
              has_description = True, is_list = False, read_frequency = Some 10,
              last_read = - 1 \<rparr>
            (AList.update ''username''
               \<lparr> default_value = PNone, allowed_types = [T_NoneType, T_str, T_bool],
                 description = Some (), hidden = False, live = False, static = False,
                 has_allowed_types = True, has_description = True, is_list = False,
                 read_frequency = Some 10, last_read = - 1 \<rparr>
               (fork_params s)) \<rparr>"

text \<open>The keys that the import walks: those of a decoded dict.\<close>

definition dict_keys :: "pyval \<Rightarrow> string list" where
  "dict_keys v = (case v of PDict kvs \<Rightarrow> map fst kvs | _ \<Rightarrow> [])"

definition legacy_keys :: "json \<Rightarrow> opParams \<Rightarrow> string list" where
  "legacy_keys J s =
     (case OLD_PARAMS_FILE s of
        None \<Rightarrow> []
      | Some txt \<Rightarrow> (case loads J txt of None \<Rightarrow> [] | Some v \<Rightarrow> dict_keys v))"

text \<open>The state in which the loop of \<^verbatim>\<open>_load_params\<close> starts.\<close>

definition before_loading :: "json \<Rightarrow> bool \<Rightarrow> opParams \<Rightarrow> opParams" where
  "before_loading J can_import s =
     (case PARAMS_DIR s of
        None \<Rightarrow>
          (let s0 = s\<lparr> PARAMS_DIR := Some [] \<rparr>
           in if can_import then import_params J s0 else s0)
      | Some d \<Rightarrow> s)"




section \<open>Reading and writing one file\<close>

lemma read_param_found:
  "file_text s key = Some txt \<Longrightarrow>
   read_param J key s =
     (Inr (case loads J txt of None \<Rightarrow> (PNone, False) | Some v \<Rightarrow> (v, True)),
      s\<lparr> opened := opened s @ [ParamFile key] \<rparr>)"
  by (auto simp: read_param_def file_text_def Let_def split: option.splits)


section \<open>put followed by a forced get\<close>



section \<open>put of an invalid value\<close>

text \<open>
  C3. For a registered key and a value that fails the key's \<open>is_valid\<close>, \<open>put\<close> raises
  and the whole state (the cache and every file) is as it was.
\<close>

theorem put_invalid_rejected:
  assumes "map_of (fork_params s) key = Some p" and "\<not> is_valid p v"
  shows "put J key v s = (Inl InvalidValueType, s)"
  using assms by (simp add: put_def)

theorem put_invalid_rejected_witness:
  "put json_fragment ''min_TR'' (PBool True) fresh_store = (Inl InvalidValueType, fresh_store)"
proof -
  let ?p = "the (map_of (fork_params fresh_store) ''min_TR'')"
  have reg: "map_of (fork_params fresh_store) ''min_TR'' = Some ?p" by code_simp
  have invalid: "\<not> is_valid ?p (PBool True)" by code_simp
  show ?thesis by (rule put_invalid_rejected [OF reg invalid])
qed

section \<open>A file with malformed JSON\<close>



section \<open>Values that get returns\<close>

text \<open>
  A \<open>Param\<close> constructed without the list marker has a valid default, and so has every
  entry of the registry that the constructor builds.
\<close>

lemma Param_init_default_valid:
  assumes "Param_init d (Many ts) descr st lv hid = Inr p" and "T_list \<notin> set ts"
  shows "is_valid p (default_value p)"
  using assms
  by (auto simp: Param_init_def create_attrs_def is_valid_def Let_def split: if_splits)

lemma registry_defaults_valid:
  "\<forall>(k, p) \<in> set (fork_params fresh_store). is_valid p (default_value p)"
  by code_simp



section \<open>What the per-key read does on failure\<close>




section \<open>Static parameters\<close>





section \<open>is_valid and the list marker\<close>

text \<open>Without the list marker, \<open>is_valid\<close> tests the value's type against the declared types.\<close>

lemma is_valid_without_list_marker:
  assumes "Param_init d (Many ts) descr st lv hid = Inr p" and "T_list \<notin> set ts"
  shows "is_valid p v \<longleftrightarrow> ts = [] \<or> py_type v \<in> set ts"
  using assms
  by (auto simp: Param_init_def create_attrs_def is_valid_def Let_def split: if_splits)

text \<open>
  C9. A \<open>Param\<close> declared with the list marker and a list default passes the constructor's
  assertion, yet \<open>is_valid\<close> rejects every list afterwards, its own default included: the
  marker is removed from the allowed types and \<open>is_valid\<close> never looks at \<open>is_list\<close>.
\<close>

theorem is_valid_rejects_declared_list:
  "case Param_init (PList [PInt 1]) (Many [T_list, T_int]) None False False False of
     Inl e \<Rightarrow> False
   | Inr p \<Rightarrow> is_list p \<and> allowed_types p = [T_int] \<and> default_value p = PList [PInt 1]
              \<and> \<not> is_valid p (PList [PInt 1]) \<and> \<not> is_valid p (PList [])"
  by (simp add: Param_init_def create_attrs_def is_valid_def)

section \<open>What the loops touch\<close>

lemma touches_refl: "touches K s s"
  by (simp add: touches_def)

lemma touches_trans: "touches K s s1 \<Longrightarrow> touches K' s1 s2 \<Longrightarrow> touches (K \<union> K') s s2"
  unfolding touches_def by (intro conjI; (blast | simp))

lemma touches_mono: "touches K s s' \<Longrightarrow> K \<subseteq> K' \<Longrightarrow> touches K' s s'"
  unfolding touches_def by (intro conjI; (blast | simp))

lemma touches_fs: "touches K s s' \<Longrightarrow> fs_touches K s s'"
  by (simp add: touches_def fs_touches_def)

lemma fs_touches_trans: "fs_touches K s s1 \<Longrightarrow> fs_touches K' s1 s2 \<Longrightarrow> fs_touches (K \<union> K') s s2"
  unfolding fs_touches_def by (intro conjI; (blast | simp))

lemma fs_touches_mono: "fs_touches K s s' \<Longrightarrow> K \<subseteq> K' \<Longrightarrow> fs_touches K' s s'"
  unfolding fs_touches_def by (intro conjI; (blast | simp))

lemma write_param_touches: "touches {key} s (snd (write_param J key v s))"
  by (auto simp: touches_def write_param_def file_text_def update_conv' split: option.splits)

lemma read_param_touches: "touches {key} s (snd (read_param J key s))"
  by (auto simp: touches_def read_param_def file_text_def Let_def split: option.splits)

lemma remove_file_touches: "touches {key} s (snd (remove_file key s))"
  by (auto simp: touches_def remove_file_def file_text_def delete_conv' split: option.splits)

lemma cache_update_touches: "touches {key} s (s\<lparr> params := AList.update key v (params s) \<rparr>)"
  by (auto simp: touches_def file_text_def update_conv')

lemma cache_delete_touches: "touches {key} s (s\<lparr> params := AList.delete key (params s) \<rparr>)"
  by (auto simp: touches_def file_text_def delete_conv')

lemma keeps_files_refl: "keeps_files s s"
  by (simp add: keeps_files_def)

lemma keeps_files_trans: "keeps_files s s1 \<Longrightarrow> keeps_files s1 s2 \<Longrightarrow> keeps_files s s2"
  by (simp add: keeps_files_def)

lemma write_param_keeps: "keeps_files s (snd (write_param J key v s))"
  by (auto simp: keeps_files_def write_param_def file_text_def update_conv' split: option.splits)

lemma read_param_keeps: "keeps_files s (snd (read_param J key s))"
  by (auto simp: keeps_files_def read_param_def file_text_def Let_def split: option.splits)

lemma encodable_map_of: "encodable J regs \<Longrightarrow> map_of regs k = Some p \<Longrightarrow> dumps J (default_value p) \<noteq> None"
  by (auto simp: encodable_def dest: map_of_SomeD)

lemma write_param_file:
  "file_text s k \<noteq> None \<Longrightarrow> dumps J v \<noteq> None \<Longrightarrow>
   \<exists>s'. write_param J key v s = (Inr (), s')"
  by (auto simp: write_param_def file_text_def split: option.splits)

lemma set_update_subset: "set (AList.update k v al) \<subseteq> insert (k, v) (set al)"
  by (induction al) auto

lemma encodable_update:
  "encodable J al \<Longrightarrow> dumps J (default_value p) \<noteq> None \<Longrightarrow> encodable J (AList.update k p al)"
  using set_update_subset [of k p al] by (auto simp: encodable_def)

lemma encodable_builtin:
  "encodable J (fork_params s) \<Longrightarrow> dumps J PNone \<noteq> None \<Longrightarrow> dumps J (PBool False) \<noteq> None \<Longrightarrow>
   encodable J (fork_params (builtin_params s))"
  by (simp add: builtin_params_def encodable_update)

lemma load_loop_touches: "touches (loadable s keys) s (snd (load_loop J keys acc s))"
proof (induction keys arbitrary: acc s)
  case Nil
  show ?case by (simp add: touches_refl)
next
  case (Cons key keys)
  show ?case
  proof (cases "startswith_dot key \<or> map_of (fork_params s) key = None")
    case True
    then have "loadable s (key # keys) = loadable s keys"
      by (auto simp: loadable_def)
    with True Cons [where acc = acc and s = s] show ?thesis by simp
  next
    case False
    have K: "loadable s (key # keys) = {key} \<union> loadable s keys"
      using False by (auto simp: loadable_def)
    from False obtain p where p: "map_of (fork_params s) key = Some p" by auto
    from False have nd: "\<not> startswith_dot key" by simp
    obtain r s1 where rd: "read_param J key s = (r, s1)" by (cases "read_param J key s")
    have t1: "touches {key} s s1" using read_param_touches [of key s J] rd by simp
    then have fp1: "fork_params s1 = fork_params s" by (simp add: touches_def)
    have same1: "loadable s1 keys = loadable s keys" by (simp add: loadable_def fp1)
    show ?thesis
    proof (cases r)
      case (Inl e)
      then show ?thesis using nd p rd t1 K
        by (auto intro: touches_mono)
    next
      case (Inr vs)
      obtain v success where vs: "vs = (v, success)" by (cases vs)
      show ?thesis
      proof (cases success)
        case True
        have "touches ({key} \<union> loadable s keys) s (snd (load_loop J keys (AList.update key v acc) s1))"
          using touches_trans [OF t1 Cons [where acc = "AList.update key v acc" and s = s1]] same1 by simp
        then show ?thesis using nd p rd Inr vs True K by simp
      next
        case fail: False
        obtain w s2 where wr: "write_param J key (default_value p) s1 = (w, s2)"
          by (cases "write_param J key (default_value p) s1")
        have t2: "touches {key} s1 s2"
          using write_param_touches [of key s1 J "default_value p"] wr by simp
        have t12: "touches {key} s s2" using touches_trans [OF t1 t2] by simp
        have same2: "loadable s2 keys = loadable s keys"
          using t12 by (simp add: loadable_def touches_def)
        show ?thesis
        proof (cases w)
          case (Inl e)
          then show ?thesis using nd rd \<open>r = Inr vs\<close> vs fail p fp1 wr t12 K
            by (auto intro: touches_mono)
        next
          case (Inr u)
          have "touches ({key} \<union> loadable s keys) s
                  (snd (load_loop J keys (AList.update key (default_value p) acc) s2))"
            using touches_trans [OF t12 Cons [where acc = "AList.update key (default_value p) acc" and s = s2]] same2
            by simp
          then show ?thesis using nd rd \<open>r = Inr vs\<close> vs fail p fp1 wr Inr K by simp
        qed
      qed
    qed
  qed
qed

lemma load_loop_keys:
  "fst (load_loop J keys acc s) = Inr r \<Longrightarrow>
   dom (map_of r) = dom (map_of acc) \<union> loadable s keys"
proof (induction keys arbitrary: acc s)
  case Nil
  then show ?case by (simp add: loadable_def)
next
  case (Cons key keys)
  show ?case
  proof (cases "startswith_dot key \<or> map_of (fork_params s) key = None")
    case True
    then have "loadable s (key # keys) = loadable s keys"
      by (auto simp: loadable_def)
    with True Cons.IH [of acc s] Cons.prems show ?thesis by simp
  next
    case False
    have K: "loadable s (key # keys) = {key} \<union> loadable s keys"
      using False by (auto simp: loadable_def)
    obtain rr s1 where rd: "read_param J key s = (rr, s1)" by (cases "read_param J key s")
    have fp1: "fork_params s1 = fork_params s"
      using read_param_touches [of key s J] rd by (simp add: touches_def)
    have same1: "loadable s1 keys = loadable s keys" by (simp add: loadable_def fp1)
    from False obtain p where p: "map_of (fork_params s) key = Some p" by auto
    from False have nd: "\<not> startswith_dot key" by simp
    show ?thesis
    proof (cases rr)
      case (Inl e)
      then show ?thesis using Cons.prems nd p rd by simp
    next
      case (Inr vs)
      obtain v success where vs: "vs = (v, success)" by (cases vs)
      show ?thesis
      proof (cases success)
        case True
        then have "fst (load_loop J keys (AList.update key v acc) s1) = Inr r"
          using Cons.prems nd p rd Inr vs by simp
        from Cons.IH [OF this] show ?thesis
          using same1 K by (auto simp: update_conv')
      next
        case fail: False
        obtain w s2 where wr: "write_param J key (default_value p) s1 = (w, s2)"
          by (cases "write_param J key (default_value p) s1")
        have "fork_params s2 = fork_params s1"
          using write_param_touches [of key s1 J "default_value p"] wr by (simp add: touches_def)
        then have same2: "loadable s2 keys = loadable s keys"
          by (simp add: loadable_def fp1)
        show ?thesis
        proof (cases w)
          case (Inl e)
          then show ?thesis using Cons.prems nd p rd Inr vs fail p fp1 wr by simp
        next
          case (Inr u)
          then have "fst (load_loop J keys (AList.update key (default_value p) acc) s2) = Inr r"
            using Cons.prems nd p rd \<open>rr = Inr vs\<close> vs fail p fp1 wr by simp
          from Cons.IH [OF this] show ?thesis
            using same2 K by (auto simp: update_conv')
        qed
      qed
    qed
  qed
qed

lemma load_loop_ok:
  assumes "\<forall>k \<in> set keys. file_text s k \<noteq> None"
    and "encodable J (fork_params s)"
    and "distinct (map fst acc)"
  shows "(\<exists>r. fst (load_loop J keys acc s) = Inr r \<and> distinct (map fst r))
       \<and> keeps_files s (snd (load_loop J keys acc s))"
  using assms
proof (induction keys arbitrary: acc s)
  case Nil
  show ?case using Nil.prems by (simp add: keeps_files_refl)
next
  case (Cons key keys)
  show ?case
  proof (cases "startswith_dot key \<or> map_of (fork_params s) key = None")
    case True
    have "\<forall>k \<in> set keys. file_text s k \<noteq> None" using Cons.prems(1) by simp
    from Cons.IH [OF this Cons.prems(2) Cons.prems(3)] True show ?thesis by simp
  next
    case False
    from False obtain p where p: "map_of (fork_params s) key = Some p" by auto
    from False have nd: "\<not> startswith_dot key" by simp
    from Cons.prems(1) obtain tx where tx: "file_text s key = Some tx" by auto
    define s1 where "s1 = s\<lparr> opened := opened s @ [ParamFile key] \<rparr>"
    have rd: "read_param J key s
                = (Inr (case loads J tx of None \<Rightarrow> (PNone, False) | Some v \<Rightarrow> (v, True)), s1)"
      using read_param_found [OF tx, of J] by (simp add: s1_def)
    have k1: "keeps_files s s1" using read_param_keeps [of s J key] rd by simp
    have fp1: "fork_params s1 = fork_params s" by (simp add: s1_def)
    have files1: "\<forall>k \<in> set keys. file_text s1 k \<noteq> None"
      using Cons.prems(1) k1 by (simp add: keeps_files_def)
    have enc1: "encodable J (fork_params s1)" using Cons.prems(2) fp1 by simp
    show ?thesis
    proof (cases "loads J tx")
      case (Some v)
      have d: "distinct (map fst (AList.update key v acc))"
        using Cons.prems(3) by (simp add: distinct_update)
      have eq: "load_loop J (key # keys) acc s = load_loop J keys (AList.update key v acc) s1"
        using nd p rd Some by simp
      show ?thesis
        using Cons.IH [OF files1 enc1 d] k1 eq by (auto intro: keeps_files_trans)
    next
      case None
      have encp: "dumps J (default_value p) \<noteq> None"
        using encodable_map_of [OF Cons.prems(2) p] .
      have f1: "file_text s1 key \<noteq> None" using tx k1 by (simp add: keeps_files_def)
      then obtain s2 where wr: "write_param J key (default_value p) s1 = (Inr (), s2)"
        using write_param_file [OF f1 encp] by blast
      have k2: "keeps_files s1 s2"
        using write_param_keeps [of s1 J key "default_value p"] wr by simp
      have fp2: "fork_params s2 = fork_params s"
        using write_param_touches [of key s1 J "default_value p"] wr fp1 by (simp add: touches_def)
      have files2: "\<forall>k \<in> set keys. file_text s2 k \<noteq> None"
        using files1 k2 by (simp add: keeps_files_def)
      have enc2: "encodable J (fork_params s2)" using Cons.prems(2) fp2 by simp
      have d: "distinct (map fst (AList.update key (default_value p) acc))"
        using Cons.prems(3) by (simp add: distinct_update)
      have eq: "load_loop J (key # keys) acc s
                  = load_loop J keys (AList.update key (default_value p) acc) s2"
        using nd p rd None fp1 wr by simp
      have k02: "keeps_files s s2" using k1 k2 by (rule keeps_files_trans)
      show ?thesis
        using Cons.IH [OF files2 enc2 d] k02 eq by (auto intro: keeps_files_trans)
    qed
  qed
qed

lemma add_default_touches: "touches (fst ` set regs) s (snd (add_default_params J regs s))"
proof (induction regs arbitrary: s)
  case Nil
  show ?case by (simp add: touches_refl)
next
  case (Cons kp regs)
  obtain key param where kp: "kp = (key, param)" by (cases kp)
  define s1 where "s1 = s\<lparr> params := AList.update key (default_value param) (params s) \<rparr>"
  define s1' where "s1' = s\<lparr> printed := printed s @ [Warning_replacing_with_default key, Print_None],
                             params := AList.update key (default_value param) (params s) \<rparr>"
  have t1: "touches {key} s s1"
    by (auto simp: s1_def touches_def file_text_def update_conv')
  have t1': "touches {key} s s1'"
    by (auto simp: s1'_def touches_def file_text_def update_conv')
  have step: "touches {key} s1 (snd (write_param J key (default_value param) s1))"
             "touches {key} s1' (snd (write_param J key (default_value param) s1'))"
    by (rule write_param_touches)+
  have w: "touches {key} s (snd (write_param J key (default_value param) s1))"
          "touches {key} s (snd (write_param J key (default_value param) s1'))"
    using touches_trans [OF t1 step(1)] touches_trans [OF t1' step(2)] by simp_all
  have K: "fst ` set (kp # regs) = {key} \<union> fst ` set regs" by (simp add: kp)
  have rest: "touches {key} s s' \<Longrightarrow>
              touches (fst ` set (kp # regs)) s (snd (add_default_params J regs s'))" for s'
  proof -
    assume "touches {key} s s'"
    from touches_trans [OF this Cons [of s']] show ?thesis by (simp add: kp)
  qed
  have stop: "touches {key} s s' \<Longrightarrow> touches (fst ` set (kp # regs)) s s'" for s'
    using K by (auto intro: touches_mono)
  show ?case
  proof (cases "map_of (params s) key")
    case None
    then show ?thesis
      using rest [OF w(1)] stop [OF w(1)]
      by (auto simp: kp Let_def s1_def split: prod.splits sum.splits)
  next
    case (Some v)
    show ?thesis
    proof (cases "is_valid param v")
      case True
      have "touches {key} s s" by (rule touches_refl)
      from rest [OF this] True Some show ?thesis by (simp add: kp)
    next
      case False
      then show ?thesis
        using Some rest [OF w(2)] stop [OF w(2)]
        by (auto simp: kp Let_def s1'_def split: prod.splits sum.splits)
    qed
  qed
qed

lemma add_default_ok:
  assumes "PARAMS_DIR s \<noteq> None" and "encodable J regs" and "backed s"
    and "distinct (map fst (params s))"
  shows "fst (add_default_params J regs s) = Inr ()
       \<and> backed (snd (add_default_params J regs s))
       \<and> distinct (map fst (params (snd (add_default_params J regs s))))"
  using assms
proof (induction regs arbitrary: s)
  case Nil
  then show ?case by simp
next
  case (Cons kp regs)
  obtain key param where kp: "kp = (key, param)" by (cases kp)
  from Cons.prems(1) obtain d where d: "PARAMS_DIR s = Some d" by auto
  from Cons.prems(2) obtain dtxt where enc: "dumps J (default_value param) = Some dtxt"
    by (auto simp: encodable_def kp)
  have encr: "encodable J regs" using Cons.prems(2) by (simp add: encodable_def)
  have upd: "PARAMS_DIR s' = Some (AList.update key dtxt d) \<Longrightarrow>
             params s' = AList.update key (default_value param) (params s) \<Longrightarrow>
             fst (add_default_params J regs s') = Inr ()
           \<and> backed (snd (add_default_params J regs s'))
           \<and> distinct (map fst (params (snd (add_default_params J regs s'))))" for s'
  proof -
    assume a: "PARAMS_DIR s' = Some (AList.update key dtxt d)"
      and b: "params s' = AList.update key (default_value param) (params s)"
    have "backed s'"
      using Cons.prems(3) d a b by (auto simp: backed_def file_text_def update_conv')
    moreover have "distinct (map fst (params s'))"
      using Cons.prems(4) b by (simp add: distinct_update)
    moreover have "PARAMS_DIR s' \<noteq> None" using a by simp
    ultimately show ?thesis using Cons.IH [OF _ encr] by blast
  qed
  show ?case
  proof (cases "map_of (params s) key")
    case None
    then show ?thesis
      using upd [of "s\<lparr> params := AList.update key (default_value param) (params s),
                        PARAMS_DIR := Some (AList.update key dtxt d) \<rparr>"] d enc
      by (simp add: kp Let_def write_param_def)
  next
    case (Some v)
    show ?thesis
    proof (cases "is_valid param v")
      case True
      then show ?thesis using Some Cons.IH [OF Cons.prems(1) encr Cons.prems(3) Cons.prems(4)]
        by (simp add: kp)
    next
      case False
      then show ?thesis
        using Some d enc
          upd [of "s\<lparr> printed := printed s @ [Warning_replacing_with_default key, Print_None],
                       params := AList.update key (default_value param) (params s),
                       PARAMS_DIR := Some (AList.update key dtxt d) \<rparr>"]
        by (simp add: kp Let_def write_param_def)
    qed
  qed
qed

lemma delete_and_reset_touches: "touches (set keys) s (snd (delete_and_reset J keys s))"
proof (induction keys arbitrary: s)
  case Nil
  show ?case by (simp add: touches_refl)
next
  case (Cons key keys)
  have rest: "touches {key} s s' \<Longrightarrow>
              touches (set (key # keys)) s (snd (delete_and_reset J keys s'))" for s'
  proof -
    assume "touches {key} s s'"
    from touches_trans [OF this Cons [of s']] show ?thesis by simp
  qed
  have stop: "touches {key} s s' \<Longrightarrow> touches (set (key # keys)) s s'" for s'
    by (auto intro: touches_mono)
  have same: "touches {key} s s" by (rule touches_refl)
  show ?case
  proof (cases "key \<in> set (to_delete s)")
    case True
    define s1 where "s1 = s\<lparr> params := AList.delete key (params s) \<rparr>"
    have "touches {key} s s1" unfolding s1_def by (rule cache_delete_touches)
    from touches_trans [OF this remove_file_touches [of key s1]]
    have t: "touches {key} s (snd (remove_file key s1))" by simp
    show ?thesis
      using True rest [OF t] stop [OF t] stop [OF same]
      by (auto simp: s1_def split: option.splits prod.splits sum.splits)
  next
    case False
    show ?thesis
    proof (cases "if key \<in> set (to_reset s) then map_of (fork_params s) key else None")
      case None
      then show ?thesis using False rest [OF same] by simp
    next
      case (Some p)
      define s1 where "s1 = s\<lparr> params := AList.update key (default_value p) (params s) \<rparr>"
      have "touches {key} s s1" unfolding s1_def by (rule cache_update_touches)
      from touches_trans [OF this write_param_touches [of key s1 J "default_value p"]]
      have t: "touches {key} s (snd (write_param J key (default_value p) s1))" by simp
      show ?thesis
        using False Some rest [OF t] stop [OF t]
        by (auto simp: s1_def Let_def split: prod.splits sum.splits)
    qed
  qed
qed

lemma delete_and_reset_ok:
  assumes "distinct keys"
    and "\<forall>k \<in> set keys. map_of (params s) k \<noteq> None \<and> file_text s k \<noteq> None"
    and "encodable J (fork_params s)"
  shows "fst (delete_and_reset J keys s) = Inr ()"
  using assms
proof (induction keys arbitrary: s)
  case Nil
  show ?case by simp
next
  case (Cons key keys)
  from Cons.prems(2) obtain v tx where v: "map_of (params s) key = Some v"
    and tx: "file_text s key = Some tx" by auto
  from tx obtain d where d: "PARAMS_DIR s = Some d" and dk: "map_of d key = Some tx"
    by (auto simp: file_text_def split: option.splits)
  have dist: "distinct keys" and notin: "key \<notin> set keys" using Cons.prems(1) by simp_all
  have step: "touches {key} s s' \<Longrightarrow> fst (delete_and_reset J keys s') = Inr ()" for s'
  proof -
    assume t: "touches {key} s s'"
    have "\<forall>k \<in> set keys. map_of (params s') k \<noteq> None \<and> file_text s' k \<noteq> None"
      using Cons.prems(2) notin t by (auto simp: touches_def)
    moreover have "encodable J (fork_params s')"
      using Cons.prems(3) t by (simp add: touches_def)
    ultimately show ?thesis using Cons.IH [OF dist] by blast
  qed
  show ?case
  proof (cases "key \<in> set (to_delete s)")
    case True
    define s1 where "s1 = s\<lparr> params := AList.delete key (params s),
                              PARAMS_DIR := Some (AList.delete key d) \<rparr>"
    have "touches {key} s s1"
      by (auto simp: s1_def touches_def file_text_def delete_conv' d)
    from step [OF this] show ?thesis
      using True v d dk by (simp add: remove_file_def s1_def)
  next
    case False
    show ?thesis
    proof (cases "if key \<in> set (to_reset s) then map_of (fork_params s) key else None")
      case None
      then show ?thesis using False step [OF touches_refl] by simp
    next
      case (Some p)
      then have "map_of (fork_params s) key = Some p" by (simp split: if_splits)
      from encodable_map_of [OF Cons.prems(3) this]
      obtain dtxt where enc: "dumps J (default_value p) = Some dtxt" by auto
      define s1 where "s1 = s\<lparr> params := AList.update key (default_value p) (params s),
                                PARAMS_DIR := Some (AList.update key dtxt d) \<rparr>"
      have "touches {key} s s1"
        by (auto simp: s1_def touches_def file_text_def update_conv' d)
      from step [OF this] show ?thesis
        using False Some d enc by (simp add: write_param_def s1_def Let_def)
    qed
  qed
qed

lemma import_entries_touches: "touches (set keys) s (snd (import_entries J keys old_params s))"
proof (induction keys arbitrary: s)
  case Nil
  show ?case by (simp add: touches_refl)
next
  case (Cons key keys)
  have t: "touches {key} s (snd (write_param J key v s))" for v
    by (rule write_param_touches)
  have rest: "touches (set (key # keys)) s
                (snd (import_entries J keys old_params (snd (write_param J key v s))))" for v
    using touches_trans [OF t [of v] Cons [of "snd (write_param J key v s)"]] by simp
  have stop: "touches (set (key # keys)) s (snd (write_param J key v s))" for v
    using t [of v] by (auto intro: touches_mono)
  have same: "touches (set (key # keys)) s s" by (rule touches_refl)
  show ?case
  proof (cases "map_of old_params key")
    case None
    then show ?thesis using same by simp
  next
    case (Some v)
    then show ?thesis using rest [of v] stop [of v]
      by (cases "write_param J key v s") (auto split: sum.splits)
  qed
qed

lemma import_loop_touches: "touches (set (dict_keys v)) s (snd (import_loop J v s))"
proof (cases v)
  case (PDict kvs)
  then show ?thesis
    using import_entries_touches [of "map fst kvs" s J kvs] by (simp add: dict_keys_def)
next
  case (PList xs)
  then show ?thesis by (cases xs) (simp_all add: touches_refl dict_keys_def)
next
  case (PStr cs)
  then show ?thesis by (cases cs) (simp_all add: touches_refl dict_keys_def)
qed (simp_all add: touches_refl dict_keys_def)


section \<open>A forced get of all parameters\<close>



section \<open>Construction\<close>

lemma run_init_eq:
  "run_init J s =
     (case load_params J True (builtin_params s) of
        (Inl e, s3) \<Rightarrow> (Inl e, s3)
      | (Inr loaded, s3) \<Rightarrow>
          (case add_default_params J (fork_params s3) (s3\<lparr> params := loaded \<rparr>) of
             (Inl e, s5) \<Rightarrow> (Inl e, s5)
           | (Inr u, s5) \<Rightarrow> delete_and_reset J (map fst (params s5)) s5))"
  by (simp add: run_init_def Param_init_def create_attrs_def builtin_params_def Let_def
           split: prod.splits sum.splits)

lemma load_params_eq:
  "load_params J ci s =
     (case PARAMS_DIR (before_loading J ci s) of
        None \<Rightarrow> (Inl FileNotFoundError, before_loading J ci s)
      | Some d \<Rightarrow> load_loop J (map fst d) [] (before_loading J ci s))"
  by (cases "PARAMS_DIR s")
     (auto simp: load_params_def before_loading_def Let_def split: option.splits)

lemma before_loading_existing: "PARAMS_DIR s \<noteq> None \<Longrightarrow> before_loading J ci s = s"
  by (auto simp: before_loading_def)

text \<open>What the try block of the import leaves behind.\<close>

lemma import_try_shape:
  "\<exists>s2. touches (set (legacy_keys J s)) (s\<lparr> opened := opened s @ [OldParamsFile] \<rparr>) s2
      \<and> (snd (import_try J s) = s2 \<or> snd (import_try J s) = s
          \<or> (fst (import_try J s) = Inr ()
             \<and> (\<exists>d. PARAMS_DIR s2 = Some d
                   \<and> snd (import_try J s) = s2\<lparr> PARAMS_DIR := Some (AList.update IMPORTED [] d) \<rparr>)))"
proof (cases "OLD_PARAMS_FILE s")
  case None
  then show ?thesis
    by (auto simp: import_try_def intro: exI [of _ "s\<lparr> opened := opened s @ [OldParamsFile] \<rparr>"] touches_refl)
next
  case (Some tx)
  let ?s1 = "s\<lparr> opened := opened s @ [OldParamsFile] \<rparr>"
  show ?thesis
  proof (cases "loads J tx")
    case None
    then show ?thesis using Some
      by (auto simp: import_try_def Let_def intro: exI [of _ ?s1] touches_refl)
  next
    case (Some v)
    have keys: "legacy_keys J s = dict_keys v"
      using Some \<open>OLD_PARAMS_FILE s = Some tx\<close> by (simp add: legacy_keys_def)
    have t: "touches (set (legacy_keys J s)) ?s1 (snd (import_loop J v ?s1))"
      using import_loop_touches [of v ?s1 J] keys by simp
    show ?thesis
      using t Some \<open>OLD_PARAMS_FILE s = Some tx\<close>
      by (intro exI [of _ "snd (import_loop J v ?s1)"])
         (auto simp: import_try_def Let_def split: prod.splits sum.splits option.splits)
  qed
qed

lemma import_params_frame:
  assumes "PARAMS_DIR s \<noteq> None"
  shows "PARAMS_DIR (import_params J s) \<noteq> None
       \<and> fork_params (import_params J s) = fork_params s
       \<and> to_delete (import_params J s) = to_delete s
       \<and> to_reset (import_params J s) = to_reset s
       \<and> OLD_PARAMS_FILE (import_params J s) = OLD_PARAMS_FILE s"
proof -
  from import_try_shape [of J s] obtain s2 where
    t: "touches (set (legacy_keys J s)) (s\<lparr> opened := opened s @ [OldParamsFile] \<rparr>) s2"
    and c: "snd (import_try J s) = s2 \<or> snd (import_try J s) = s
          \<or> (fst (import_try J s) = Inr ()
             \<and> (\<exists>d. PARAMS_DIR s2 = Some d
                   \<and> snd (import_try J s) = s2\<lparr> PARAMS_DIR := Some (AList.update IMPORTED [] d) \<rparr>))"
    by blast
  have "PARAMS_DIR (snd (import_try J s)) \<noteq> None
      \<and> fork_params (snd (import_try J s)) = fork_params s
      \<and> to_delete (snd (import_try J s)) = to_delete s
      \<and> to_reset (snd (import_try J s)) = to_reset s
      \<and> OLD_PARAMS_FILE (snd (import_try J s)) = OLD_PARAMS_FILE s"
    using t c assms by (auto simp: touches_def)
  then show ?thesis using assms by (simp add: import_params_def)
qed

lemma before_loading_frame:
  "PARAMS_DIR (before_loading J ci s) \<noteq> None
 \<and> fork_params (before_loading J ci s) = fork_params s
 \<and> to_delete (before_loading J ci s) = to_delete s
 \<and> to_reset (before_loading J ci s) = to_reset s
 \<and> OLD_PARAMS_FILE (before_loading J ci s) = OLD_PARAMS_FILE s"
proof (cases "PARAMS_DIR s")
  case None
  then show ?thesis
    using import_params_frame [of "s\<lparr> PARAMS_DIR := Some [] \<rparr>" J]
    by (simp add: before_loading_def Let_def)
next
  case (Some d)
  then show ?thesis by (simp add: before_loading_def)
qed

text \<open>
  The run of the constructor once the directory is in place: it touches only files of
  registered keys, and it succeeds when every default can be encoded.
\<close>

lemma run_init_run:
  defines "b \<equiv> \<lambda>J s. before_loading J True (builtin_params s)"
  shows "fs_touches (registered (builtin_params s)) (b J s) (snd (run_init J s))
       \<and> (encodable J (fork_params s) \<and> dumps J PNone \<noteq> None \<and> dumps J (PBool False) \<noteq> None
            \<longrightarrow> fst (run_init J s) = Inr ())"
proof -
  let ?s1 = "b J s"
  let ?R = "registered (builtin_params s)"
  have fr: "PARAMS_DIR ?s1 \<noteq> None" "fork_params ?s1 = fork_params (builtin_params s)"
    using before_loading_frame [of J True "builtin_params s"] by (simp_all add: b_def)
  then obtain d where d: "PARAMS_DIR ?s1 = Some d" by auto
  let ?keys = "map fst d"
  have lp: "load_params J True (builtin_params s) = load_loop J ?keys [] ?s1"
    using d by (simp add: load_params_eq b_def)
  obtain lr s3 where ll: "load_loop J ?keys [] ?s1 = (lr, s3)"
    by (cases "load_loop J ?keys [] ?s1")
  have K1: "loadable ?s1 ?keys \<subseteq> ?R"
    by (auto simp: loadable_def registered_def fr)
  have t13: "touches (loadable ?s1 ?keys) ?s1 s3"
    using load_loop_touches [of ?s1 ?keys J "[]"] ll by simp
  have f13: "fs_touches ?R ?s1 s3"
    using fs_touches_mono [OF touches_fs [OF t13] K1] .
  have fp3: "fork_params s3 = fork_params (builtin_params s)"
    using t13 fr by (simp add: touches_def)
  have files1: "\<forall>k \<in> set ?keys. file_text ?s1 k \<noteq> None"
    using d by (auto simp: file_text_def map_of_eq_None_iff)
  show ?thesis
  proof (cases lr)
    case (Inl e)
    have run: "run_init J s = (Inl e, s3)" using lp ll Inl by (simp add: run_init_eq)
    have no: "\<not> (encodable J (fork_params s) \<and> dumps J PNone \<noteq> None \<and> dumps J (PBool False) \<noteq> None)"
    proof
      assume a: "encodable J (fork_params s) \<and> dumps J PNone \<noteq> None \<and> dumps J (PBool False) \<noteq> None"
      then have "encodable J (fork_params ?s1)" using encodable_builtin fr by simp
      from load_loop_ok [OF files1 this, of "[]"] ll Inl show False by simp
    qed
    have "fs_touches ?R ?s1 (snd (run_init J s))" using run f13 by simp
    then show ?thesis using no by blast
  next
    case (Inr loaded)
    let ?s4 = "s3\<lparr> params := loaded \<rparr>"
    have dom: "dom (map_of loaded) = loadable ?s1 ?keys"
      using load_loop_keys [of J ?keys "[]" ?s1 loaded] ll Inr by simp
    have f34: "fs_touches {} s3 ?s4" by (simp add: fs_touches_def file_text_def)
    obtain ar s5 where ad: "add_default_params J (fork_params s3) ?s4 = (ar, s5)"
      by (cases "add_default_params J (fork_params s3) ?s4")
    have t45: "touches (fst ` set (fork_params s3)) ?s4 s5"
      using add_default_touches [of "fork_params s3" ?s4 J] ad by simp
    have K2: "fst ` set (fork_params s3) = ?R"
      by (auto simp: registered_def fp3 map_of_eq_None_iff)
    have f45: "fs_touches ?R ?s4 s5" using touches_fs [OF t45] K2 by simp
    have f15: "fs_touches ?R ?s1 s5"
      using fs_touches_trans [OF fs_touches_trans [OF f13 f34] f45] by simp
    have cache5: "set (map fst (params s5)) \<subseteq> ?R"
    proof
      fix k assume "k \<in> set (map fst (params s5))"
      then have in5: "map_of (params s5) k \<noteq> None" by (simp add: map_of_eq_None_iff)
      show "k \<in> ?R"
      proof (rule ccontr)
        assume out: "k \<notin> ?R"
        then have "map_of (params s5) k = map_of loaded k"
          using t45 K2 by (simp add: touches_def)
        moreover have "map_of loaded k = None" using dom K1 out by (auto simp: dom_def)
        ultimately show False using in5 by simp
      qed
    qed
    obtain dr s6 where del: "delete_and_reset J (map fst (params s5)) s5 = (dr, s6)"
      by (cases "delete_and_reset J (map fst (params s5)) s5")
    have t56: "touches (set (map fst (params s5))) s5 s6"
      using delete_and_reset_touches [of "map fst (params s5)" s5 J] del by simp
    have f56: "fs_touches ?R s5 s6" using fs_touches_mono [OF touches_fs [OF t56] cache5] .
    have f16: "fs_touches ?R ?s1 s6" using fs_touches_trans [OF f15 f56] by simp
    have run: "run_init J s = (case ar of Inl e \<Rightarrow> (Inl e, s5) | Inr u \<Rightarrow> (dr, s6))"
      using lp ll Inr ad del by (simp add: run_init_eq split: sum.splits)
    have frame: "fs_touches ?R ?s1 (snd (run_init J s))"
      using run f15 f16 by (cases ar) simp_all
    have ok: "fst (run_init J s) = Inr ()"
      if a: "encodable J (fork_params s) \<and> dumps J PNone \<noteq> None \<and> dumps J (PBool False) \<noteq> None"
    proof -
      have enc1: "encodable J (fork_params ?s1)" using a encodable_builtin fr by simp
      from load_loop_ok [OF files1 enc1, of "[]"] ll Inr
      have dl: "distinct (map fst loaded)" and keep: "keeps_files ?s1 s3" by simp_all
      have dir4: "PARAMS_DIR ?s4 \<noteq> None" using f13 fr by (simp add: fs_touches_def)
      have enc3: "encodable J (fork_params s3)" using enc1 fp3 fr by simp
      have back4: "backed ?s4"
      proof -
        have "file_text s3 k \<noteq> None" if "map_of loaded k \<noteq> None" for k
        proof -
          from that dom have "k \<in> set ?keys" by (auto simp: loadable_def dom_def)
          with files1 keep show ?thesis unfolding keeps_files_def by blast
        qed
        then show ?thesis by (simp add: backed_def file_text_def)
      qed
      have dist4: "distinct (map fst (params ?s4))" using dl by simp
      from add_default_ok [OF dir4 enc3 back4 dist4] ad
      have ar: "ar = Inr ()" and back5: "backed s5" and dist5: "distinct (map fst (params s5))"
        by simp_all
      have enc5: "encodable J (fork_params s5)" using f45 enc3 by (simp add: fs_touches_def)
      have all5: "\<forall>k \<in> set (map fst (params s5)). map_of (params s5) k \<noteq> None \<and> file_text s5 k \<noteq> None"
        using back5 by (auto simp: backed_def map_of_eq_None_iff)
      from delete_and_reset_ok [OF dist5 all5 enc5] del have "dr = Inr ()" by simp
      with run ar show ?thesis by simp
    qed
    show ?thesis using frame ok by blast
  qed
qed







text \<open>With the directory in place, construction leaves the file of a key that is not registered as it was.\<close>

lemma unregistered_file_untouched:
  assumes "PARAMS_DIR s \<noteq> None" and "k \<notin> registered (builtin_params s)"
  shows "file_text (snd (run_init J s)) k = file_text s k"
proof -
  have "before_loading J True (builtin_params s) = builtin_params s"
    using assms(1) by (simp add: before_loading_existing builtin_params_def)
  with run_init_run [of s J] assms(2) show ?thesis
    by (simp add: fs_touches_def file_text_def builtin_params_def)
qed

section \<open>Keys listed for deletion\<close>

text \<open>
  C7. With a file \<open>use_lqr\<close> in the directory before construction, \<open>use_lqr\<close> being listed
  in \<open>to_delete\<close>, the file is still there after construction: the key is not registered,
  so it is never loaded into the cache, and only cached keys are deleted.
\<close>

theorem to_delete_file_survives_init:
  "fst (opParams_init json_fragment (world (Some [(''use_lqr'', ''true'')]) None)) = Inr ()
 \<and> ''use_lqr'' \<in> set (to_delete (snd (opParams_init json_fragment
                                         (world (Some [(''use_lqr'', ''true'')]) None))))
 \<and> file_text (snd (opParams_init json_fragment (world (Some [(''use_lqr'', ''true'')]) None)))
       ''use_lqr'' = Some ''true''
 \<and> map_of (params (snd (opParams_init json_fragment (world (Some [(''use_lqr'', ''true'')]) None))))
       ''use_lqr'' = None"
  by code_simp

section \<open>A failed legacy import\<close>




end
